theory Spec2Isabelle
  imports Main
begin

section \<open>Node model\<close>

text \<open>
  A node of the element tree, as the collectors of
  \<^verbatim>\<open>packages/core-api/src/routing/collectors.tsx\<close> read it: an identity (\<open>nid\<close>, so that
  \<open>===\<close> on nodes is equality of identities), the properties \<open>path\<close>, \<open>caseSensitive\<close>,
  \<open>element\<close> and \<open>children\<close>, and the component data \<open>core.mountPoint\<close> and
  \<open>core.gatherMountPoints\<close>. A property that is absent, or an \<open>element\<close> that is not a
  valid element, is \<open>None\<close>.
\<close>

type_synonym routeRef = nat

datatype node = Node
  (nid: nat)
  (props_path: "string option")
  (props_caseSensitive: "bool option")
  (props_element: "node option")
  (props_children: "node list")
  (data_mountPoint: "routeRef option")
  (data_gatherMountPoints: "bool option")

text \<open>
  The three errors the reducers throw: \<open>Mount point gatherer must have a path\<close>,
  \<open>Mounted routable extension must have a path\<close> and
  \<open>No path found for mount point <routeRef>\<close>.
\<close>

datatype error = MissingGatherPath | MissingMountPath | MissingRouteObjectPath routeRef

text \<open>
  The tests \<open>if (path)\<close> and \<open>if (!path)\<close> on a \<open>string | undefined\<close>: the empty string is
  as false as \<open>undefined\<close>.
\<close>

definition truthy :: "string option \<Rightarrow> bool" where
  "truthy p = (case p of None \<Rightarrow> False | Some s \<Rightarrow> s \<noteq> [])"

definition getMountPoint :: "node \<Rightarrow> routeRef option" where
  "getMountPoint n =
     (case data_mountPoint n of
        Some routeRef \<Rightarrow> Some routeRef
      | None \<Rightarrow> (case props_element n of
                   Some element \<Rightarrow> data_mountPoint element
                 | None \<Rightarrow> None))"

text \<open>\<open>getComponentData<boolean>(node, 'core.gatherMountPoints')\<close> used as a condition.\<close>

definition isGatherer :: "node \<Rightarrow> bool" where
  "isGatherer n = (data_gatherMountPoints n = Some True)"

text \<open>The test \<open>parent?.props.element === node\<close> that opens each reducer.\<close>

definition aliased :: "node option \<Rightarrow> node \<Rightarrow> bool" where
  "aliased parent n =
     (case parent of
        None \<Rightarrow> False
      | Some p \<Rightarrow> (case props_element p of
                     None \<Rightarrow> False
                   | Some element \<Rightarrow> nid element = nid n))"

section \<open>Traversal engine\<close>

text \<open>
  Modelled from the spec: the traversal engine behind \<open>createCollector\<close>
  (\<open>extensions/traversal\<close>) is not among the sources. Section 4.1 of the specification
  describes it: a depth-first preorder walk from the root over the structural children, in
  document order; the reducer is called with the accumulator, the node, its structural
  parent (absent for the root) and the context its parent's call returned (the seed for the
  root), and what it returns is the context of the node's children; a node that is the
  \<open>element\<close> of its structural parent is not given to the reducer, and its children get the
  context unchanged; an error of the reducer ends the run.
\<close>

fun traverse ::
  "('a \<Rightarrow> node \<Rightarrow> node option \<Rightarrow> 'c \<Rightarrow> error + 'a \<times> 'c) \<Rightarrow>
     node option \<Rightarrow> 'c \<Rightarrow> node \<Rightarrow> 'a \<Rightarrow> error + 'a"
and traverseAll ::
  "('a \<Rightarrow> node \<Rightarrow> node option \<Rightarrow> 'c \<Rightarrow> error + 'a \<times> 'c) \<Rightarrow>
     node option \<Rightarrow> 'c \<Rightarrow> node list \<Rightarrow> 'a \<Rightarrow> error + 'a"
where
  "traverse visit parent ctx (Node i p cs e ch m g) acc =
     (if aliased parent (Node i p cs e ch m g)
      then traverseAll visit (Some (Node i p cs e ch m g)) ctx ch acc
      else (case visit acc (Node i p cs e ch m g) parent ctx of
              Inl err \<Rightarrow> Inl err
            | Inr (acc', ctx') \<Rightarrow> traverseAll visit (Some (Node i p cs e ch m g)) ctx' ch acc'))"
| "traverseAll visit parent ctx [] acc = Inr acc"
| "traverseAll visit parent ctx (c # rest) acc =
     (case traverse visit parent ctx c acc of
        Inl err \<Rightarrow> Inl err
      | Inr acc' \<Rightarrow> traverseAll visit parent ctx rest acc')"

section \<open>Route-Path Collector\<close>

text \<open>
  The reducer of \<open>routePathCollector\<close>. The accumulator is the \<open>Map<RouteRef, string>\<close>,
  the context the \<open>string | undefined\<close> context path. \<open>currentCtxPath\<close> is the variable of
  the source after the gatherer block, \<open>nextCtxPath\<close> its value at the final \<open>return\<close>.
\<close>

definition routePathVisit ::
  "(routeRef \<rightharpoonup> string) \<Rightarrow> node \<Rightarrow> node option \<Rightarrow> string option \<Rightarrow>
     error + (routeRef \<rightharpoonup> string) \<times> string option" where
  "routePathVisit acc n parent ctxPath =
     (if aliased parent n then Inr (acc, ctxPath)
      else if isGatherer n \<and> \<not> truthy (props_path n) then Inl MissingGatherPath
      else
        let currentCtxPath = (if isGatherer n then props_path n else ctxPath) in
        case getMountPoint n of
          None \<Rightarrow> Inr (acc, currentCtxPath)
        | Some routeRef \<Rightarrow>
            let (path, nextCtxPath) =
                  (if truthy currentCtxPath
                   then (if truthy (props_path n) then (props_path n, None)
                         else (currentCtxPath, currentCtxPath))
                   else (props_path n, currentCtxPath))
            in (case path of
                  None \<Rightarrow> Inl MissingMountPath
                | Some p \<Rightarrow>
                    if p = [] then Inl MissingMountPath
                    else Inr (acc(routeRef \<mapsto> p), nextCtxPath)))"

definition routePathCollector :: "node \<Rightarrow> error + (routeRef \<rightharpoonup> string)" where
  "routePathCollector root = traverse routePathVisit None None root Map.empty"

section \<open>Route-Parent Collector\<close>

text \<open>
  The context of \<open>routeParentCollector\<close> at run time: \<open>undefined\<close>, a route reference, or an
  object \<open>{ sticky: v }\<close> around any such value (the source builds \<open>{ sticky: nextParent }\<close>
  from whatever \<open>nextParent\<close> holds). A route reference has no property \<open>sticky\<close>. The map
  stores whatever the reducer hands it, and a key set to \<open>undefined\<close> is a key of the map.
\<close>

datatype parentCtx = Undefined | Ref routeRef | Sticky parentCtx

text \<open>The reducer has no \<open>throw\<close>: it returns the accumulator and the next context.\<close>

definition routeParentVisit ::
  "(routeRef \<rightharpoonup> parentCtx) \<Rightarrow> node \<Rightarrow> node option \<Rightarrow> parentCtx \<Rightarrow>
     (routeRef \<rightharpoonup> parentCtx) \<times> parentCtx" where
  "routeParentVisit acc n parent parentRouteRef =
     (if aliased parent n then (acc, parentRouteRef)
      else
        let (acc', nextParent) =
              (case getMountPoint n of
                 None \<Rightarrow> (acc, parentRouteRef)
               | Some routeRef \<Rightarrow>
                   (case parentRouteRef of
                      Sticky inner \<Rightarrow>
                        (acc(routeRef \<mapsto> inner),
                         if truthy (props_path n) then Ref routeRef else parentRouteRef)
                    | _ \<Rightarrow> (acc(routeRef \<mapsto> parentRouteRef), Ref routeRef)))
        in if isGatherer n then (acc', Sticky nextParent) else (acc', nextParent))"

definition routeParentCollector :: "node \<Rightarrow> error + (routeRef \<rightharpoonup> parentCtx)" where
  "routeParentCollector root =
     traverse (\<lambda>acc n parent ctx. Inr (routeParentVisit acc n parent ctx))
       None Undefined root Map.empty"

section \<open>Route-Object Collector\<close>

text \<open>
  The reducer of \<open>routeObjectCollector\<close> pushes onto arrays it holds by reference: the
  accumulator, or the \<open>children\<close> array of an object pushed earlier. The arrays live in a
  heap, addressed by numbers; \<open>fresh\<close> is the next unused address and the accumulator is the
  array at \<open>accAddr\<close>. A \<open>BackstageRouteObject\<close> holds the address of its \<open>children\<close> array
  (its \<open>element\<close> is always \<open>null\<close> and is left out).
\<close>

type_synonym addr = nat

record routeObject =
  caseSensitive :: bool
  path :: string
  routeRef :: routeRef
  children :: addr

record heap =
  arrays :: "addr \<Rightarrow> routeObject list"
  fresh :: addr

definition accAddr :: addr where
  "accAddr = 0"

definition initHeap :: heap where
  "initHeap = \<lparr>arrays = (\<lambda>a. []), fresh = 1\<rparr>"

definition newArray :: "heap \<Rightarrow> heap \<times> addr" where
  "newArray h = (h\<lparr>arrays := (arrays h)(fresh h := []), fresh := Suc (fresh h)\<rparr>, fresh h)"

definition push :: "heap \<Rightarrow> addr \<Rightarrow> routeObject \<Rightarrow> heap" where
  "push h a obj = h\<lparr>arrays := (arrays h)(a := arrays h a @ [obj])\<rparr>"

text \<open>
  The context parameter has the default \<open>acc\<close>: an absent context is the accumulator.
  \<open>Boolean(node.props?.caseSensitive)\<close> is true for the property \<open>true\<close> only.
\<close>

definition routeObjectVisit ::
  "heap \<Rightarrow> node \<Rightarrow> node option \<Rightarrow> addr option \<Rightarrow> error + heap \<times> addr option" where
  "routeObjectVisit h n parent ctx =
     (let parentChildArr = (case ctx of None \<Rightarrow> accAddr | Some a \<Rightarrow> a) in
      if aliased parent n then Inr (h, Some parentChildArr)
      else
        case getMountPoint n of
          None \<Rightarrow> Inr (h, Some parentChildArr)
        | Some r \<Rightarrow>
            let (h1, childArr) = newArray h in
            (case props_path n of
               None \<Rightarrow> Inl (MissingRouteObjectPath r)
             | Some p \<Rightarrow>
                 if p = [] then Inl (MissingRouteObjectPath r)
                 else Inr (push h1 parentChildArr
                             \<lparr>caseSensitive = (props_caseSensitive n = Some True),
                              path = p, routeRef = r, children = childArr\<rparr>,
                           Some childArr)))"

text \<open>
  The value of an array of the heap as a tree: every object with the value of its
  \<open>children\<close> array. The reducer only ever stores an address above that of the array it
  pushes onto and below \<open>fresh\<close>, and the recursion follows such addresses only.
\<close>

datatype routeTree = RouteTree bool string routeRef "routeTree list"

function reify :: "heap \<Rightarrow> addr \<Rightarrow> routeTree list" where
  "reify h a =
     map (\<lambda>obj. RouteTree (caseSensitive obj) (path obj) (routeRef obj)
                  (if a < children obj \<and> children obj < fresh h
                   then reify h (children obj) else []))
         (arrays h a)"
  by pat_completeness auto
termination
  by (relation "measure (\<lambda>(h, a). fresh h - a)") auto

declare reify.simps [simp del]

definition routeObjectCollector :: "node \<Rightarrow> error + routeTree list" where
  "routeObjectCollector root =
     (case traverse routeObjectVisit None None root initHeap of
        Inl err \<Rightarrow> Inl err
      | Inr h \<Rightarrow> Inr (reify h accAddr))"

section \<open>Properties of trees and heaps\<close>

text \<open>No node of the tree resolves to a route reference.\<close>

fun noMountPoints :: "node \<Rightarrow> bool" where
  "noMountPoints (Node i p cs e ch m g) =
     (getMountPoint (Node i p cs e ch m g) = None \<and> (\<forall>c \<in> set ch. noMountPoints c))"

text \<open>Every gatherer of the tree that is not alias-suppressed has a non-empty path.\<close>

fun gatherersPathed :: "node option \<Rightarrow> node \<Rightarrow> bool" where
  "gatherersPathed parent (Node i p cs e ch m g) =
     ((aliased parent (Node i p cs e ch m g) \<or> \<not> isGatherer (Node i p cs e ch m g) \<or> truthy p) \<and>
      (\<forall>c \<in> set ch. gatherersPathed (Some (Node i p cs e ch m g)) c))"

text \<open>Every mount point of the tree that is not alias-suppressed has a non-empty path.\<close>

fun mountPathsOk :: "node option \<Rightarrow> node \<Rightarrow> bool" where
  "mountPathsOk parent (Node i p cs e ch m g) =
     ((aliased parent (Node i p cs e ch m g) \<or> getMountPoint (Node i p cs e ch m g) = None \<or>
       truthy p) \<and>
      (\<forall>c \<in> set ch. mountPathsOk (Some (Node i p cs e ch m g)) c))"

text \<open>
  The nesting induced by the mount points, in the words of the specification (sections 3
  and 4.4): a node that is alias-suppressed or no mount point is transparent, what lies
  below it goes to the sequence it was reached with, in document order; a mount point
  contributes one route object, and what lies below it is that object's children.
\<close>

fun mountForest :: "node option \<Rightarrow> node \<Rightarrow> routeTree list" where
  "mountForest parent (Node i p cs e ch m g) =
     (if aliased parent (Node i p cs e ch m g)
      then concat (map (mountForest (Some (Node i p cs e ch m g))) ch)
      else case getMountPoint (Node i p cs e ch m g) of
             None \<Rightarrow> concat (map (mountForest (Some (Node i p cs e ch m g))) ch)
           | Some r \<Rightarrow>
               [RouteTree (cs = Some True) (case p of None \<Rightarrow> [] | Some s \<Rightarrow> s) r
                  (concat (map (mountForest (Some (Node i p cs e ch m g))) ch))])"

text \<open>
  The heaps the reducer builds: an object in the array at \<open>b\<close> has its children array
  above \<open>b\<close> and below \<open>fresh\<close>.
\<close>

definition wfHeap :: "heap \<Rightarrow> bool" where
  "wfHeap h =
     (\<forall>b < fresh h. \<forall>obj \<in> set (arrays h b). b < children obj \<and> children obj < fresh h)"

definition reifyObj :: "heap \<Rightarrow> routeObject \<Rightarrow> routeTree" where
  "reifyObj h obj =
     RouteTree (caseSensitive obj) (path obj) (routeRef obj) (reify h (children obj))"

text \<open>
  \<open>extends h a h' forest\<close>: from \<open>h\<close> to \<open>h'\<close> the array at \<open>a\<close> has grown at its end by
  objects of value \<open>forest\<close>, whose children arrays are new, and no other array that
  existed in \<open>h\<close> has changed.
\<close>

definition extends :: "heap \<Rightarrow> addr \<Rightarrow> heap \<Rightarrow> routeTree list \<Rightarrow> bool" where
  "extends h a h' forest =
     (wfHeap h' \<and> fresh h \<le> fresh h' \<and>
      (\<forall>b. b < fresh h \<and> b \<noteq> a \<longrightarrow> arrays h' b = arrays h b) \<and>
      (\<exists>new. arrays h' a = arrays h a @ new \<and>
             (\<forall>obj \<in> set new. fresh h \<le> children obj) \<and>
             map (reifyObj h') new = forest))"

section \<open>Example trees\<close>

text \<open>A route whose \<open>element\<close> is also its structural child.\<close>

definition routeWithElement :: node where
  "routeWithElement =
     Node 0 (Some ''/a'') None (Some (Node 1 None None None [] (Some 7) None))
       [Node 1 None None None [] (Some 7) None] None None"

text \<open>A gatherer inside a gatherer, with a mount point below both.\<close>

definition nestedGatherers :: node where
  "nestedGatherers =
     Node 0 (Some ''/a'') None None
       [Node 1 (Some ''/b'') None None
          [Node 2 None None None [] (Some 1) None] None (Some True)]
       None (Some True)"

text \<open>A gatherer without a path, in a tree without mount points.\<close>

definition pathlessGatherer :: node where
  "pathlessGatherer = Node 0 None None None [Node 1 None None None [] None None] None (Some True)"

text \<open>
  Mount point 1 with mount point 2 two plain nodes below it, followed by the sibling
  mount points 3, 4 and 5 at the same depth as 1.
\<close>

definition nestedRoutes :: node where
  "nestedRoutes =
     Node 0 None None None
       [Node 1 (Some ''/a'') (Some True) None
          [Node 2 None None None
             [Node 3 None None None
                [Node 4 (Some ''/b'') None None [] (Some 2) None] None None] None None]
          (Some 1) None,
        Node 5 (Some ''/c'') None None [] (Some 3) None,
        Node 6 (Some ''/d'') None None [] (Some 4) None,
        Node 7 (Some ''/e'') None None [] (Some 5) None]
       None None"

section \<open>Alias suppression\<close>

text \<open>
  C8: a reducer call at a node that is the \<open>element\<close> of its structural parent leaves the
  accumulator as it was and returns the context it was given, in each of the three
  collectors. For the Route-Object Collector the context given is the array the parameter
  holds: the one passed, or the accumulator when none is passed (the parameter's default).
\<close>

theorem alias_suppressed_frame:
  "aliased parent n \<Longrightarrow>
     routePathVisit pathAcc n parent ctxPath = Inr (pathAcc, ctxPath) \<and>
     routeParentVisit parentAcc n parent parentRouteRef = (parentAcc, parentRouteRef) \<and>
     routeObjectVisit h n parent (Some parentChildArr) = Inr (h, Some parentChildArr) \<and>
     routeObjectVisit h n parent None = Inr (h, Some accAddr)"
  by (simp add: routePathVisit_def routeParentVisit_def routeObjectVisit_def)

theorem alias_suppressed_frame_witness:
  "aliased (Some routeWithElement) (Node 1 None None None [] (Some 7) None) \<and>
   routePathVisit Map.empty (Node 1 None None None [] (Some 7) None)
     (Some routeWithElement) (Some ''/g'') = Inr (Map.empty, Some ''/g'') \<and>
   routeParentVisit Map.empty (Node 1 None None None [] (Some 7) None)
     (Some routeWithElement) (Sticky (Ref 3)) = (Map.empty, Sticky (Ref 3)) \<and>
   routeObjectVisit initHeap (Node 1 None None None [] (Some 7) None)
     (Some routeWithElement) (Some 0) = Inr (initHeap, Some 0)"
  using alias_suppressed_frame [of "Some routeWithElement" "Node 1 None None None [] (Some 7) None"
      Map.empty "Some ''/g''" Map.empty "Sticky (Ref 3)" initHeap 0]
  by (simp add: aliased_def routeWithElement_def)

section \<open>Reducer rules of the Route-Path Collector\<close>

text \<open>
  C4, as amended: at a mount point that is not alias-suppressed and has passed the gatherer
  block, with \<open>cur\<close> the context path current after that block (the node's own path at a
  gatherer, the context passed in otherwise), and with an empty string counting as no path
  on either side: if \<open>cur\<close> is active and the node has an own path, the own path is recorded
  and the context of the children is absent; if \<open>cur\<close> is active and the node has no own
  path, \<open>cur\<close> is recorded and passed on; if \<open>cur\<close> is not active and the node has an own
  path, the own path is recorded (and \<open>cur\<close> passed on as it is); if neither gives a path,
  the reducer fails with \<open>MissingMountPath\<close>.
\<close>

theorem routePath_mount_cases:
  assumes "\<not> aliased parent n" and "getMountPoint n = Some r"
    and "isGatherer n \<Longrightarrow> truthy (props_path n)"
    and "cur = (if isGatherer n then props_path n else ctxPath)"
  shows "(truthy cur \<and> props_path n = Some p \<and> p \<noteq> [] \<longrightarrow>
            routePathVisit acc n parent ctxPath = Inr (acc(r \<mapsto> p), None)) \<and>
         (cur = Some c \<and> c \<noteq> [] \<and> \<not> truthy (props_path n) \<longrightarrow>
            routePathVisit acc n parent ctxPath = Inr (acc(r \<mapsto> c), Some c)) \<and>
         (\<not> truthy cur \<and> props_path n = Some p \<and> p \<noteq> [] \<longrightarrow>
            routePathVisit acc n parent ctxPath = Inr (acc(r \<mapsto> p), cur)) \<and>
         (\<not> truthy cur \<and> \<not> truthy (props_path n) \<longrightarrow>
            routePathVisit acc n parent ctxPath = Inl MissingMountPath)"
proof (intro conjI impI)
  assume "truthy cur \<and> props_path n = Some p \<and> p \<noteq> []"
  with assms show "routePathVisit acc n parent ctxPath = Inr (acc(r \<mapsto> p), None)"
    by (simp add: routePathVisit_def truthy_def)
next
  assume "cur = Some c \<and> c \<noteq> [] \<and> \<not> truthy (props_path n)"
  with assms show "routePathVisit acc n parent ctxPath = Inr (acc(r \<mapsto> c), Some c)"
    by (auto simp: routePathVisit_def truthy_def split: if_splits)
next
  assume "\<not> truthy cur \<and> props_path n = Some p \<and> p \<noteq> []"
  with assms show "routePathVisit acc n parent ctxPath = Inr (acc(r \<mapsto> p), cur)"
    by (auto simp: routePathVisit_def truthy_def split: if_splits)
next
  assume "\<not> truthy cur \<and> \<not> truthy (props_path n)"
  with assms show "routePathVisit acc n parent ctxPath = Inl MissingMountPath"
    by (auto simp: routePathVisit_def truthy_def split: if_splits option.splits)
qed

text \<open>The four cases of C4 at concrete mount points.\<close>

theorem routePath_mount_cases_witness:
  "routePathVisit Map.empty (Node 1 (Some ''/b'') None None [] (Some 1) None) None (Some ''/g'')
     = Inr (Map.empty(1 \<mapsto> ''/b''), None) \<and>
   routePathVisit Map.empty (Node 1 None None None [] (Some 1) None) None (Some ''/g'')
     = Inr (Map.empty(1 \<mapsto> ''/g''), Some ''/g'') \<and>
   routePathVisit Map.empty (Node 1 (Some ''/b'') None None [] (Some 1) None) None None
     = Inr (Map.empty(1 \<mapsto> ''/b''), None) \<and>
   routePathVisit Map.empty (Node 1 None None None [] (Some 1) None) None None
     = Inl MissingMountPath"
  using
    routePath_mount_cases [where parent = None
      and n = "Node 1 (Some ''/b'') None None [] (Some 1) None" and r = 1
      and cur = "Some ''/g''" and ctxPath = "Some ''/g''" and p = "''/b''" and c = "''/g''"
      and acc = Map.empty]
    routePath_mount_cases [where parent = None
      and n = "Node 1 None None None [] (Some 1) None" and r = 1
      and cur = "Some ''/g''" and ctxPath = "Some ''/g''" and p = "''/b''" and c = "''/g''"
      and acc = Map.empty]
    routePath_mount_cases [where parent = None
      and n = "Node 1 (Some ''/b'') None None [] (Some 1) None" and r = 1
      and cur = None and ctxPath = None and p = "''/b''" and c = "''/g''"
      and acc = Map.empty]
    routePath_mount_cases [where parent = None
      and n = "Node 1 None None None [] (Some 1) None" and r = 1
      and cur = None and ctxPath = None and p = "''/b''" and c = "''/g''"
      and acc = Map.empty]
  by (simp add: aliased_def getMountPoint_def isGatherer_def truthy_def)

text \<open>
  Where C4 as written fails: a mount point whose \<open>path\<close> property is the empty string has a
  path property, yet under an active context path the context path is recorded and passed
  on, and with no context path the reducer fails; and a mount point without a path that is
  also a gatherer, visited under an active context path, records nothing and fails with
  \<open>MissingGatherPath\<close>.
\<close>

theorem routePath_mount_cases_counterexample:
  "routePathVisit Map.empty (Node 1 (Some []) None None [] (Some 1) None) None (Some ''/a'')
     = Inr (Map.empty(1 \<mapsto> ''/a''), Some ''/a'') \<and>
   routePathVisit Map.empty (Node 1 (Some []) None None [] (Some 1) None) None None
     = Inl MissingMountPath \<and>
   routePathVisit Map.empty (Node 1 None None None [] (Some 1) (Some True)) None (Some ''/a'')
     = Inl MissingGatherPath"
  by (simp add: routePathVisit_def aliased_def getMountPoint_def truthy_def isGatherer_def Let_def)

text \<open>
  C6, as amended: at a gatherer that is not alias-suppressed, the reducer fails with
  \<open>MissingGatherPath\<close> if the node's path is absent or empty; otherwise the node's path
  becomes the current context path, and it is the context of the node's subtree if the node
  is no mount point; if the node is a mount point, its path is recorded for its route
  reference and the context of its subtree is absent.
\<close>

theorem gatherer_path_rule:
  assumes "\<not> aliased parent n" and "isGatherer n"
  shows "(\<not> truthy (props_path n) \<longrightarrow>
            routePathVisit acc n parent ctxPath = Inl MissingGatherPath) \<and>
         (props_path n = Some p \<and> p \<noteq> [] \<and> getMountPoint n = None \<longrightarrow>
            routePathVisit acc n parent ctxPath = Inr (acc, Some p)) \<and>
         (props_path n = Some p \<and> p \<noteq> [] \<and> getMountPoint n = Some r \<longrightarrow>
            routePathVisit acc n parent ctxPath = Inr (acc(r \<mapsto> p), None))"
  using assms by (simp add: routePathVisit_def truthy_def)

theorem gatherer_path_rule_witness:
  "\<not> aliased None (Node 0 (Some ''/g'') None None [] None (Some True)) \<and>
   isGatherer (Node 0 (Some ''/g'') None None [] None (Some True)) \<and>
   routePathVisit Map.empty (Node 0 (Some ''/g'') None None [] None (Some True)) None None
     = Inr (Map.empty, Some ''/g'') \<and>
   routePathVisit Map.empty (Node 0 None None None [] None (Some True)) None (Some ''/x'')
     = Inl MissingGatherPath"
  using gatherer_path_rule [of None "Node 0 (Some ''/g'') None None [] None (Some True)"
      Map.empty None "''/g''" 0]
    gatherer_path_rule [of None "Node 0 None None None [] None (Some True)"
      Map.empty "Some ''/x''" "''/g''" 0]
  by (simp add: aliased_def isGatherer_def getMountPoint_def truthy_def)

text \<open>
  Where C6 as written fails: a gatherer that is a mount point with a path passes no context
  path to its subtree, and a gatherer whose \<open>path\<close> property is the empty string fails
  although the property is there.
\<close>

theorem gatherer_path_counterexample:
  "routePathVisit Map.empty (Node 1 (Some ''/a'') None None [] (Some 1) (Some True)) None None
     = Inr (Map.empty(1 \<mapsto> ''/a''), None) \<and>
   routePathVisit Map.empty (Node 0 (Some []) None None [] None (Some True)) None None
     = Inl MissingGatherPath"
  by (simp add: routePathVisit_def aliased_def getMountPoint_def truthy_def isGatherer_def)

text \<open>
  C10, as amended: at a node that is not alias-suppressed, is a gatherer and a mount point
  and has a non-empty own path, the reducer records the own path for the route reference
  and returns an absent context path, whatever context it was given; a mount point without
  a path directly below, visited with that absent context, inherits nothing and fails with
  \<open>MissingMountPath\<close>.
\<close>

theorem gathering_mount_cancels_region:
  assumes "\<not> aliased parent n" and "isGatherer n" and "getMountPoint n = Some r"
    and "props_path n = Some p" and "p \<noteq> []"
  shows "routePathVisit acc n parent ctxPath = Inr (acc(r \<mapsto> p), None) \<and>
         (\<not> aliased (Some n) child \<and> \<not> isGatherer child \<and> getMountPoint child = Some r' \<and>
          \<not> truthy (props_path child) \<longrightarrow>
            routePathVisit acc' child (Some n) None = Inl MissingMountPath)"
proof
  show "routePathVisit acc n parent ctxPath = Inr (acc(r \<mapsto> p), None)"
    using assms by (simp add: routePathVisit_def truthy_def)
next
  show "\<not> aliased (Some n) child \<and> \<not> isGatherer child \<and> getMountPoint child = Some r' \<and>
          \<not> truthy (props_path child) \<longrightarrow>
            routePathVisit acc' child (Some n) None = Inl MissingMountPath"
    by (auto simp: routePathVisit_def truthy_def split: option.splits)
qed

theorem gathering_mount_cancels_region_witness:
  "routePathVisit Map.empty
     (Node 1 (Some ''/a'') None None [Node 2 None None None [] (Some 2) None] (Some 1) (Some True))
     None (Some ''/outer'') = Inr (Map.empty(1 \<mapsto> ''/a''), None) \<and>
   routePathVisit (Map.empty(1 \<mapsto> ''/a'')) (Node 2 None None None [] (Some 2) None)
     (Some (Node 1 (Some ''/a'') None None [Node 2 None None None [] (Some 2) None] (Some 1) (Some True)))
     None = Inl MissingMountPath"
  using gathering_mount_cancels_region [where parent = None
      and n = "Node 1 (Some ''/a'') None None [Node 2 None None None [] (Some 2) None] (Some 1) (Some True)"
      and r = 1 and p = "''/a''" and child = "Node 2 None None None [] (Some 2) None" and r' = 2
      and acc = Map.empty and ctxPath = "Some ''/outer''" and acc' = "Map.empty(1 \<mapsto> ''/a'')"]
  by (simp add: aliased_def isGatherer_def getMountPoint_def truthy_def)

text \<open>
  Where C10 as written fails: with the empty string as its path the node fails with
  \<open>MissingGatherPath\<close> and records nothing, and an alias-suppressed node records nothing
  and passes the context it was given.
\<close>

theorem gathering_mount_counterexample:
  "routePathVisit Map.empty (Node 1 (Some []) None None [] (Some 1) (Some True)) None None
     = Inl MissingGatherPath \<and>
   routePathVisit Map.empty (Node 1 (Some ''/b'') None None [] (Some 7) (Some True))
     (Some routeWithElement) (Some ''/g'') = Inr (Map.empty, Some ''/g'')"
  by (simp add: routePathVisit_def aliased_def getMountPoint_def truthy_def isGatherer_def
      routeWithElement_def)

section \<open>Reducer rules of the Route-Parent Collector\<close>

text \<open>
  C2, as amended: at a mount point that is not alias-suppressed and has a non-empty own
  path, visited under a sticky context, the inner value of the context is recorded as the
  parent, and the context of the node's descendants is the plain route reference of the
  node: the sticky state is removed. It is sticky again only if the node is itself a
  gatherer.
\<close>

theorem sticky_pathed_mount_context:
  assumes "\<not> aliased parent n" and "getMountPoint n = Some r"
    and "props_path n = Some p" and "p \<noteq> []"
  shows "routeParentVisit acc n parent (Sticky inner) =
           (acc(r \<mapsto> inner), if isGatherer n then Sticky (Ref r) else Ref r)"
  using assms by (simp add: routeParentVisit_def truthy_def)

theorem sticky_pathed_mount_context_witness:
  "\<not> aliased None (Node 2 (Some ''/b'') None None [] (Some 2) None) \<and>
   getMountPoint (Node 2 (Some ''/b'') None None [] (Some 2) None) = Some 2 \<and>
   routeParentVisit Map.empty (Node 2 (Some ''/b'') None None [] (Some 2) None) None
     (Sticky (Ref 1)) = (Map.empty(2 \<mapsto> Ref 1), Ref 2) \<and>
   routeParentVisit Map.empty (Node 2 (Some ''/b'') None None [] (Some 2) (Some True)) None
     (Sticky (Ref 1)) = (Map.empty(2 \<mapsto> Ref 1), Sticky (Ref 2))"
  using
    sticky_pathed_mount_context [of None "Node 2 (Some ''/b'') None None [] (Some 2) None"
      2 "''/b''" Map.empty "Ref 1"]
    sticky_pathed_mount_context [of None "Node 2 (Some ''/b'') None None [] (Some 2) (Some True)"
      2 "''/b''" Map.empty "Ref 1"]
  by (simp add: aliased_def getMountPoint_def isGatherer_def)

text \<open>
  Where C2 as written fails: under the context \<open>{ sticky: 1 }\<close>, the mount point 2 with
  path \<open>/b\<close> returns the plain reference 2, not \<open>{ sticky: 2 }\<close>.
\<close>

theorem sticky_pathed_mount_becomes_plain_counterexample:
  "snd (routeParentVisit Map.empty (Node 2 (Some ''/b'') None None [] (Some 2) None) None
          (Sticky (Ref 1))) = Ref 2 \<and>
   snd (routeParentVisit Map.empty (Node 2 (Some ''/b'') None None [] (Some 2) None) None
          (Sticky (Ref 1))) \<noteq> Sticky (Ref 2)"
  by (simp add: routeParentVisit_def aliased_def getMountPoint_def truthy_def isGatherer_def)

text \<open>
  C1, at the input where the code departs from it: in \<open>nestedGatherers\<close> the inner gatherer
  is visited under \<open>{ sticky: undefined }\<close> and wraps that context once more, and the
  mount point 1 below it, visited under the doubly wrapped context, is recorded with the
  value \<open>{ sticky: undefined }\<close>, a sticky object, as its parent.
\<close>

theorem nested_gatherers_record_sticky:
  "(\<exists>m. routeParentCollector nestedGatherers = Inr m \<and> m 1 = Some (Sticky Undefined)) \<and>
   routeParentVisit Map.empty (Node 1 (Some ''/b'') None None
          [Node 2 None None None [] (Some 1) None] None (Some True)) None (Sticky Undefined)
     = (Map.empty, Sticky (Sticky Undefined)) \<and>
   routeParentVisit Map.empty (Node 2 None None None [] (Some 1) None) None
          (Sticky (Sticky Undefined))
     = (Map.empty(1 \<mapsto> Sticky Undefined), Sticky (Sticky Undefined))"
  by (simp add: routeParentCollector_def nestedGatherers_def routeParentVisit_def aliased_def
      getMountPoint_def isGatherer_def truthy_def)

section \<open>Runs of the engine\<close>

lemma traverse_first_error:
  "\<not> aliased parent n \<Longrightarrow> visit acc n parent ctx = Inl err \<Longrightarrow>
     traverse visit parent ctx n acc = Inl err"
  by (cases n) simp

text \<open>A reducer that never fails makes every run return.\<close>

lemma traverse_total:
  "(\<And>a m q c. \<exists>r. visit a m q c = Inr r) \<Longrightarrow>
     \<exists>acc'. traverse visit parent ctx n acc = Inr acc'"
  "(\<And>a m q c. \<exists>r. visit a m q c = Inr r) \<Longrightarrow>
     \<exists>acc'. traverseAll visit parent ctx ns acc = Inr acc'"
proof (induction visit parent ctx n acc and visit parent ctx ns acc
    rule: traverse_traverseAll.induct)
  case (1 visit parent ctx i p cs e ch m g acc)
  let ?n = "Node i p cs e ch m g"
  show ?case
  proof (cases "aliased parent ?n")
    case True
    with 1 show ?thesis by simp
  next
    case False
    from 1(3) obtain acc1 ctx1 where v: "visit acc ?n parent ctx = Inr (acc1, ctx1)"
      by (metis surj_pair)
    from 1(2) [OF False v refl] 1(3) obtain acc' where
      "traverseAll visit (Some ?n) ctx1 ch acc1 = Inr acc'" by blast
    with False v show ?thesis by simp
  qed
next
  case (2 visit parent ctx acc)
  show ?case by simp
next
  case (3 visit parent ctx c rest acc)
  from 3(1) 3(3) obtain acc1 where t: "traverse visit parent ctx c acc = Inr acc1" by blast
  from 3(2) [OF t] 3(3) obtain acc' where
    "traverseAll visit parent ctx rest acc1 = Inr acc'" by blast
  with t show ?case by simp
qed

text \<open>
  A reducer that leaves the accumulator alone at nodes without a mount point returns the
  accumulator it started with on a tree without mount points.
\<close>

lemma traverse_unchanged:
  "(\<And>a m q c. getMountPoint m = None \<Longrightarrow> \<exists>c'. visit a m q c = Inr (a, c')) \<Longrightarrow>
     noMountPoints n \<Longrightarrow> traverse visit parent ctx n acc = Inr acc"
  "(\<And>a m q c. getMountPoint m = None \<Longrightarrow> \<exists>c'. visit a m q c = Inr (a, c')) \<Longrightarrow>
     (\<forall>c \<in> set ns. noMountPoints c) \<Longrightarrow> traverseAll visit parent ctx ns acc = Inr acc"
proof (induction visit parent ctx n acc and visit parent ctx ns acc
    rule: traverse_traverseAll.induct)
  case (1 visit parent ctx i p cs e ch m g acc)
  let ?n = "Node i p cs e ch m g"
  from 1(4) have nm: "getMountPoint ?n = None" and kids: "\<forall>c \<in> set ch. noMountPoints c"
    by simp_all
  show ?case
  proof (cases "aliased parent ?n")
    case True
    with 1(1) [OF True 1(3) kids] show ?thesis by simp
  next
    case False
    from 1(3) [OF nm] obtain ctx1 where v: "visit acc ?n parent ctx = Inr (acc, ctx1)"
      by blast
    from 1(2) [OF False v refl 1(3) kids] False v show ?thesis by simp
  qed
next
  case (2 visit parent ctx acc)
  show ?case by simp
next
  case (3 visit parent ctx c rest acc)
  from 3(4) have c: "noMountPoints c" and rest: "\<forall>c \<in> set rest. noMountPoints c" by simp_all
  have t: "traverse visit parent ctx c acc = Inr acc" by (rule 3(1) [OF 3(3) c])
  from 3(2) [OF t 3(3) rest] t show ?case by simp
qed

section \<open>The Route-Object Collector demands an own path\<close>

text \<open>
  C5: at a mount point that is not alias-suppressed and whose own path is absent (or
  empty), the reducer of the Route-Object Collector fails with \<open>MissingRouteObjectPath\<close>
  carrying the mount point's route reference, for every heap and every context, and so
  does the walk that reaches the node: no context stands in for the path.
\<close>

theorem routeObject_missing_path:
  assumes "\<not> aliased parent n" and "getMountPoint n = Some r"
    and "props_path n = None \<or> props_path n = Some []"
  shows "routeObjectVisit h n parent ctx = Inl (MissingRouteObjectPath r) \<and>
         traverse routeObjectVisit parent ctx n h = Inl (MissingRouteObjectPath r)"
proof -
  have v: "routeObjectVisit h n parent ctx = Inl (MissingRouteObjectPath r)"
    using assms by (auto simp: routeObjectVisit_def newArray_def)
  with assms(1) show ?thesis
    by (simp add: traverse_first_error)
qed

theorem routeObject_missing_path_witness:
  "\<not> aliased None (Node 1 None None None [] (Some 7) None) \<and>
   getMountPoint (Node 1 None None None [] (Some 7) None) = Some 7 \<and>
   routeObjectVisit initHeap (Node 1 None None None [] (Some 7) None) None (Some 0)
     = Inl (MissingRouteObjectPath 7) \<and>
   routeObjectCollector (Node 1 None None None [] (Some 7) None)
     = Inl (MissingRouteObjectPath 7)"
  using routeObject_missing_path [of None "Node 1 None None None [] (Some 7) None" 7 initHeap None]
    routeObject_missing_path [of None "Node 1 None None None [] (Some 7) None" 7 initHeap "Some 0"]
  by (simp add: aliased_def getMountPoint_def routeObjectCollector_def)

section \<open>The Route-Parent Collector never fails\<close>

text \<open>
  C9: the reducer of the Route-Parent Collector has no failing branch (it is a total
  function to accumulator and context), so on every tree the run returns a mapping, also
  where mount points and gatherers have no path.
\<close>

theorem routeParent_never_fails: "\<exists>m. routeParentCollector root = Inr m"
  unfolding routeParentCollector_def by (rule traverse_total) simp

section \<open>Trees without mount points\<close>

lemma routePathVisit_no_mount:
  "getMountPoint n = None \<Longrightarrow> \<not> aliased parent n \<Longrightarrow>
     routePathVisit acc n parent ctx =
       (if isGatherer n \<and> \<not> truthy (props_path n) then Inl MissingGatherPath
        else Inr (acc, if isGatherer n then props_path n else ctx))"
  by (simp add: routePathVisit_def)

lemma routePath_no_mounts:
  "noMountPoints n \<Longrightarrow>
     traverse routePathVisit parent ctx n acc =
       (if gatherersPathed parent n then Inr acc else Inl MissingGatherPath)"
  "(\<forall>c \<in> set ns. noMountPoints c) \<Longrightarrow>
     traverseAll routePathVisit parent ctx ns acc =
       (if \<forall>c \<in> set ns. gatherersPathed parent c then Inr acc else Inl MissingGatherPath)"
proof (induction routePathVisit parent ctx n acc and routePathVisit parent ctx ns acc
    rule: traverse_traverseAll.induct)
  case (1 parent ctx i p cs e ch m g acc)
  let ?n = "Node i p cs e ch m g"
  from 1(3) have nm: "getMountPoint ?n = None" and kids: "\<forall>c \<in> set ch. noMountPoints c"
    by simp_all
  show ?case
  proof (cases "aliased parent ?n")
    case True
    with 1(1) [OF True kids] show ?thesis by simp
  next
    case False
    show ?thesis
    proof (cases "isGatherer ?n \<and> \<not> truthy p")
      case True
      with False nm show ?thesis by (simp add: routePathVisit_no_mount)
    next
      case ok: False
      have v: "routePathVisit acc ?n parent ctx = Inr (acc, if isGatherer ?n then p else ctx)"
        using False nm ok by (simp add: routePathVisit_no_mount)
      from 1(2) [OF False v refl kids] False v ok show ?thesis by auto
    qed
  qed
next
  case (2 parent ctx acc)
  show ?case by simp
next
  case (3 parent ctx c rest acc)
  from 3(3) have c: "noMountPoints c" and rest: "\<forall>c \<in> set rest. noMountPoints c" by simp_all
  show ?case
  proof (cases "gatherersPathed parent c")
    case True
    with 3(1) [OF c] have t: "traverse routePathVisit parent ctx c acc = Inr acc" by simp
    from 3(2) [OF t rest] t True show ?thesis by simp
  next
    case False
    with 3(1) [OF c] show ?thesis by auto
  qed
qed

lemma routeParentVisit_no_mount:
  "getMountPoint n = None \<Longrightarrow> \<exists>c'. routeParentVisit acc n parent ctx = (acc, c')"
  by (simp add: routeParentVisit_def)

lemma routeObjectVisit_no_mount:
  "getMountPoint n = None \<Longrightarrow> \<exists>c'. routeObjectVisit h n parent ctx = Inr (h, c')"
  by (simp add: routeObjectVisit_def Let_def)

lemma reify_initHeap: "reify initHeap accAddr = []"
  by (simp add: reify.simps initHeap_def)

text \<open>
  C3, as amended: on a tree without mount points the Route-Parent Collector returns the
  empty mapping and the Route-Object Collector the empty sequence; the Route-Path Collector
  returns the empty mapping if every gatherer it visits has a non-empty path, and fails
  with \<open>MissingGatherPath\<close> otherwise.
\<close>

theorem no_mount_points_results:
  assumes "noMountPoints root"
  shows "routeParentCollector root = Inr Map.empty \<and>
         routeObjectCollector root = Inr [] \<and>
         (gatherersPathed None root \<longrightarrow> routePathCollector root = Inr Map.empty) \<and>
         (\<not> gatherersPathed None root \<longrightarrow> routePathCollector root = Inl MissingGatherPath)"
proof (intro conjI)
  show "routeParentCollector root = Inr Map.empty"
    unfolding routeParentCollector_def
    by (rule traverse_unchanged(1) [OF _ assms]) (simp add: routeParentVisit_no_mount)
next
  have "traverse routeObjectVisit None None root initHeap = Inr initHeap"
    by (rule traverse_unchanged(1) [OF _ assms]) (simp add: routeObjectVisit_no_mount)
  then show "routeObjectCollector root = Inr []"
    by (simp add: routeObjectCollector_def reify_initHeap)
qed (simp_all add: routePathCollector_def routePath_no_mounts(1) [OF assms])

theorem no_mount_points_results_witness:
  "noMountPoints (Node 0 None None None [Node 1 (Some ''/g'') None None [] None (Some True)] None None) \<and>
   gatherersPathed None (Node 0 None None None [Node 1 (Some ''/g'') None None [] None (Some True)] None None) \<and>
   routeParentCollector (Node 0 None None None [Node 1 (Some ''/g'') None None [] None (Some True)] None None) = Inr Map.empty \<and>
   routeObjectCollector (Node 0 None None None [Node 1 (Some ''/g'') None None [] None (Some True)] None None) = Inr [] \<and>
   routePathCollector (Node 0 None None None [Node 1 (Some ''/g'') None None [] None (Some True)] None None) = Inr Map.empty"
  using no_mount_points_results [of "Node 0 None None None [Node 1 (Some ''/g'') None None [] None (Some True)] None None"]
  by (simp add: getMountPoint_def aliased_def isGatherer_def truthy_def)

text \<open>
  Where C3 as written fails: \<open>pathlessGatherer\<close> has no mount point, and the Route-Path
  Collector returns no mapping on it but fails at the gatherer.
\<close>

theorem no_mount_points_counterexample:
  "noMountPoints pathlessGatherer \<and> routePathCollector pathlessGatherer = Inl MissingGatherPath"
  by (simp add: pathlessGatherer_def routePathCollector_def routePathVisit_def getMountPoint_def
      aliased_def isGatherer_def truthy_def)

section \<open>The route objects mirror the nesting of the mount points\<close>

lemma reify_wf:
  assumes "wfHeap h" and "a < fresh h"
  shows "reify h a = map (reifyObj h) (arrays h a)"
proof -
  have "\<And>obj. obj \<in> set (arrays h a) \<Longrightarrow> a < children obj \<and> children obj < fresh h"
    using assms by (simp add: wfHeap_def)
  then show ?thesis
    by (subst reify.simps) (simp add: reifyObj_def cong: map_cong)
qed

text \<open>The value of an array depends only on the arrays above it.\<close>

lemma reify_frame:
  assumes wf: "wfHeap h" and le: "fresh h \<le> fresh h'"
    and same: "\<And>b. lo \<le> b \<Longrightarrow> b < fresh h \<Longrightarrow> arrays h' b = arrays h b"
  shows "lo \<le> a \<Longrightarrow> a < fresh h \<Longrightarrow> reify h' a = reify h a"
  using wf le same
proof (induction h a rule: reify.induct)
  case (1 h a)
  have arr: "arrays h' a = arrays h a" using 1 by simp
  have step: "\<And>obj. obj \<in> set (arrays h a) \<Longrightarrow>
      a < children obj \<and> children obj < fresh h \<and> children obj < fresh h' \<and>
      reify h' (children obj) = reify h (children obj)"
  proof -
    fix obj assume mem: "obj \<in> set (arrays h a)"
    with "1.prems"(2,3) have b: "a < children obj \<and> children obj < fresh h"
      by (simp add: wfHeap_def)
    with "1.prems"(4) have b': "children obj < fresh h'" by simp
    have "reify h' (children obj) = reify h (children obj)"
      using "1.IH" [OF mem b] b "1.prems" by simp
    with b b' show "a < children obj \<and> children obj < fresh h \<and> children obj < fresh h' \<and>
      reify h' (children obj) = reify h (children obj)" by simp
  qed
  show ?case
    by (subst reify.simps, subst (2) reify.simps) (simp add: arr step cong: map_cong)
qed

lemma extends_refl: "wfHeap h \<Longrightarrow> extends h a h []"
  by (simp add: extends_def)

lemma extends_trans:
  assumes wf: "wfHeap h" and a: "a < fresh h"
    and e1: "extends h a h1 f1" and e2: "extends h1 a h2 f2"
  shows "extends h a h2 (f1 @ f2)"
proof -
  from e1 obtain new1 where wf1: "wfHeap h1" and le1: "fresh h \<le> fresh h1"
    and same1: "\<And>b. b < fresh h \<Longrightarrow> b \<noteq> a \<Longrightarrow> arrays h1 b = arrays h b"
    and arr1: "arrays h1 a = arrays h a @ new1"
    and ch1: "\<And>obj. obj \<in> set new1 \<Longrightarrow> fresh h \<le> children obj"
    and f1: "map (reifyObj h1) new1 = f1"
    by (auto simp: extends_def)
  from e2 obtain new2 where wf2: "wfHeap h2" and le2: "fresh h1 \<le> fresh h2"
    and same2: "\<And>b. b < fresh h1 \<Longrightarrow> b \<noteq> a \<Longrightarrow> arrays h2 b = arrays h1 b"
    and arr2: "arrays h2 a = arrays h1 a @ new2"
    and ch2: "\<And>obj. obj \<in> set new2 \<Longrightarrow> fresh h1 \<le> children obj"
    and f2: "map (reifyObj h2) new2 = f2"
    by (auto simp: extends_def)
  have a1: "a < fresh h1" using a le1 by simp
  have keep: "reifyObj h2 obj = reifyObj h1 obj" if mem: "obj \<in> set new1" for obj
  proof -
    from mem arr1 have "obj \<in> set (arrays h1 a)" by simp
    with wf1 a1 have up: "children obj < fresh h1" by (simp add: wfHeap_def)
    have "reify h2 (children obj) = reify h1 (children obj)"
    proof (rule reify_frame [OF wf1 le2 _ ch1 [OF mem] up])
      fix b assume "fresh h \<le> b" and "b < fresh h1"
      with a show "arrays h2 b = arrays h1 b" by (intro same2) simp_all
    qed
    then show ?thesis by (simp add: reifyObj_def)
  qed
  have "arrays h2 a = arrays h a @ (new1 @ new2)" using arr1 arr2 by simp
  moreover have "\<forall>obj \<in> set (new1 @ new2). fresh h \<le> children obj"
    using ch1 ch2 le1 by fastforce
  moreover have "map (reifyObj h2) (new1 @ new2) = f1 @ f2"
    using keep f1 f2 by (simp cong: map_cong)
  moreover have "\<forall>b. b < fresh h \<and> b \<noteq> a \<longrightarrow> arrays h2 b = arrays h b"
    using same1 same2 le1 by simp
  ultimately show ?thesis
    unfolding extends_def using wf2 le1 le2 by (intro conjI exI [of _ "new1 @ new2"]) simp_all
qed

lemma routeObjectVisit_mount:
  assumes "\<not> aliased parent n" and "getMountPoint n = Some r"
    and "props_path n = Some p" and "p \<noteq> []"
  shows "routeObjectVisit h n parent (Some a) =
           Inr (push (fst (newArray h)) a
                  \<lparr>caseSensitive = (props_caseSensitive n = Some True), path = p,
                   routeRef = r, children = fresh h\<rparr>,
                Some (fresh h))"
  using assms by (simp add: routeObjectVisit_def newArray_def)

lemma push_newArray:
  assumes a: "a < fresh h"
  shows "fresh (push (fst (newArray h)) a obj) = Suc (fresh h)"
    and "arrays (push (fst (newArray h)) a obj) a = arrays h a @ [obj]"
    and "arrays (push (fst (newArray h)) a obj) (fresh h) = []"
    and "b \<noteq> a \<Longrightarrow> b \<noteq> fresh h \<Longrightarrow> arrays (push (fst (newArray h)) a obj) b = arrays h b"
  using a by (simp_all add: push_def newArray_def)

lemma wfHeap_push_newArray:
  assumes wf: "wfHeap h" and a: "a < fresh h" and c: "children obj = fresh h"
  shows "wfHeap (push (fst (newArray h)) a obj)"
  unfolding wfHeap_def
proof (intro allI impI ballI)
  fix b o'
  assume b: "b < fresh (push (fst (newArray h)) a obj)"
    and mem: "o' \<in> set (arrays (push (fst (newArray h)) a obj) b)"
  show "b < children o' \<and> children o' < fresh (push (fst (newArray h)) a obj)"
  proof (cases "b = fresh h")
    case True
    with mem a show ?thesis by (simp add: push_newArray)
  next
    case False
    with b a have lt: "b < fresh h" by (simp add: push_newArray)
    show ?thesis
    proof (cases "o' = obj \<and> b = a")
      case True
      with a c show ?thesis by (simp add: push_newArray)
    next
      case False
      with mem lt a have "o' \<in> set (arrays h b)"
        by (cases "b = a") (auto simp: push_newArray)
      with wf lt have "b < children o' \<and> children o' < fresh h" by (simp add: wfHeap_def)
      with a show ?thesis by (simp add: push_newArray)
    qed
  qed
qed

text \<open>
  A mount point's object, pushed onto the array at \<open>a\<close>, has as its children what the walk
  below the node appends to the new array.
\<close>

lemma extends_mount:
  assumes wf: "wfHeap h" and a: "a < fresh h" and c: "children obj = fresh h"
    and e: "extends (push (fst (newArray h)) a obj) (fresh h) h2 forest"
  shows "extends h a h2 [RouteTree (caseSensitive obj) (path obj) (routeRef obj) forest]"
proof -
  let ?h1 = "push (fst (newArray h)) a obj"
  from e obtain new where wf2: "wfHeap h2" and le: "fresh ?h1 \<le> fresh h2"
    and same: "\<And>b. b < fresh ?h1 \<Longrightarrow> b \<noteq> fresh h \<Longrightarrow> arrays h2 b = arrays ?h1 b"
    and arr: "arrays h2 (fresh h) = arrays ?h1 (fresh h) @ new"
    and f: "map (reifyObj h2) new = forest"
    by (auto simp: extends_def)
  have lt: "fresh h < fresh h2" using le a by (simp add: push_newArray)
  have arr_a: "arrays h2 a = arrays h a @ [obj]"
    using same [of a] a by (simp add: push_newArray)
  have old: "\<forall>b. b < fresh h \<and> b \<noteq> a \<longrightarrow> arrays h2 b = arrays h b"
    using same a by (simp add: push_newArray)
  have "reify h2 (fresh h) = map (reifyObj h2) (arrays h2 (fresh h))"
    by (rule reify_wf [OF wf2 lt])
  also have "\<dots> = forest" using arr f a by (simp add: push_newArray)
  finally have "reifyObj h2 obj = RouteTree (caseSensitive obj) (path obj) (routeRef obj) forest"
    by (simp add: reifyObj_def c)
  with arr_a c show ?thesis
    unfolding extends_def using wf2 lt old by (intro conjI exI [of _ "[obj]"]) simp_all
qed

text \<open>
  The walk of a subtree with the context array \<open>a\<close> appends to that array the forest of
  the subtree, and to no other array that existed before.
\<close>

lemma routeObject_traverse:
  "wfHeap h \<Longrightarrow> ctx = Some a \<Longrightarrow> a < fresh h \<Longrightarrow> mountPathsOk parent n \<Longrightarrow>
     \<exists>h'. traverse routeObjectVisit parent ctx n h = Inr h' \<and>
          extends h a h' (mountForest parent n)"
  "wfHeap h \<Longrightarrow> ctx = Some a \<Longrightarrow> a < fresh h \<Longrightarrow> (\<forall>c \<in> set ns. mountPathsOk parent c) \<Longrightarrow>
     \<exists>h'. traverseAll routeObjectVisit parent ctx ns h = Inr h' \<and>
          extends h a h' (concat (map (mountForest parent) ns))"
proof (induction routeObjectVisit parent ctx n h and routeObjectVisit parent ctx ns h
    arbitrary: a and a rule: traverse_traverseAll.induct)
  case (1 parent ctx i p cs e ch m g h)
  let ?n = "Node i p cs e ch m g"
  from "1.prems"(4) have kids: "\<forall>c \<in> set ch. mountPathsOk (Some ?n) c" by simp
  show ?case
  proof (cases "aliased parent ?n")
    case True
    from 1(1) [OF True "1.prems"(1,2,3) kids] True show ?thesis by simp
  next
    case False
    show ?thesis
    proof (cases "getMountPoint ?n")
      case None
      have v: "routeObjectVisit h ?n parent ctx = Inr (h, Some a)"
        using False None "1.prems"(2) by (simp add: routeObjectVisit_def)
      from 1(2) [OF False v refl "1.prems"(1) refl "1.prems"(3) kids] False v None
      show ?thesis by simp
    next
      case (Some r)
      with False "1.prems"(4) obtain s where p: "p = Some s" and s: "s \<noteq> []"
        by (auto simp: truthy_def split: option.splits)
      let ?obj = "\<lparr>caseSensitive = (cs = Some True), path = s, routeRef = r, children = fresh h\<rparr>"
      let ?h1 = "push (fst (newArray h)) a ?obj"
      have v: "routeObjectVisit h ?n parent ctx = Inr (?h1, Some (fresh h))"
        using routeObjectVisit_mount [OF False Some, of s h a] p s "1.prems"(2) by simp
      have wf1: "wfHeap ?h1"
        by (rule wfHeap_push_newArray [OF "1.prems"(1,3)]) simp
      have lt1: "fresh h < fresh ?h1" using "1.prems"(3) by (simp add: push_newArray)
      from 1(2) [OF False v refl wf1 refl lt1 kids] obtain h' where
        run: "traverseAll routeObjectVisit (Some ?n) (Some (fresh h)) ch ?h1 = Inr h'" and
        ext: "extends ?h1 (fresh h) h' (concat (map (mountForest (Some ?n)) ch))"
        by blast
      have "extends h a h' [RouteTree (caseSensitive ?obj) (path ?obj) (routeRef ?obj)
              (concat (map (mountForest (Some ?n)) ch))]"
        by (rule extends_mount [OF "1.prems"(1,3) _ ext]) simp
      with run False v Some p show ?thesis by simp
    qed
  qed
next
  case (2 parent ctx h)
  then show ?case by (simp add: extends_refl)
next
  case (3 parent ctx c rest h)
  from "3.prems"(4) have c: "mountPathsOk parent c"
    and rest: "\<forall>c \<in> set rest. mountPathsOk parent c" by simp_all
  from 3(1) [OF "3.prems"(1,2,3) c] obtain h1 where
    t: "traverse routeObjectVisit parent ctx c h = Inr h1" and
    e1: "extends h a h1 (mountForest parent c)" by blast
  from e1 have wf1: "wfHeap h1" and a1: "a < fresh h1"
    using "3.prems"(3) by (auto simp: extends_def)
  from 3(2) [OF t wf1 "3.prems"(2) a1 rest] obtain h2 where
    t2: "traverseAll routeObjectVisit parent ctx rest h1 = Inr h2" and
    e2: "extends h1 a h2 (concat (map (mountForest parent) rest))" by blast
  from extends_trans [OF "3.prems"(1,3) e1 e2] t t2 show ?case by simp
qed

text \<open>At the root the absent context is the accumulator.\<close>

lemma routeObject_root_context:
  "traverse routeObjectVisit None None root h =
     traverse routeObjectVisit None (Some accAddr) root h"
  by (cases root) (simp add: aliased_def routeObjectVisit_def)

lemma wfHeap_initHeap: "wfHeap initHeap"
  by (simp add: wfHeap_def initHeap_def)

text \<open>
  C7: when every mount point the walk visits has a (non-empty) path, the Route-Object
  Collector returns exactly \<open>mountForest\<close> of the tree: the object of a mount point B lies
  in the children sequence of the object of the nearest mount point A above it, however
  many transparent nodes lie between them, and the objects of one sequence stand in
  document order. (Without such a path the run fails, see C5.)
\<close>

theorem routeObject_mirrors_nesting:
  assumes "mountPathsOk None root"
  shows "routeObjectCollector root = Inr (mountForest None root)"
proof -
  have a: "accAddr < fresh initHeap" by (simp add: accAddr_def initHeap_def)
  from routeObject_traverse(1) [OF wfHeap_initHeap refl a assms] obtain h' where
    run: "traverse routeObjectVisit None (Some accAddr) root initHeap = Inr h'" and
    ext: "extends initHeap accAddr h' (mountForest None root)" by blast
  from ext obtain new where wf': "wfHeap h'" and le: "fresh initHeap \<le> fresh h'"
    and arr: "arrays h' accAddr = arrays initHeap accAddr @ new"
    and f: "map (reifyObj h') new = mountForest None root"
    by (auto simp: extends_def)
  have "accAddr < fresh h'" using a le by simp
  then have "reify h' accAddr = map (reifyObj h') (arrays h' accAddr)"
    by (rule reify_wf [OF wf'])
  also have "\<dots> = mountForest None root"
    using arr f by (simp add: initHeap_def)
  finally show ?thesis
    using run by (simp add: routeObjectCollector_def routeObject_root_context)
qed

text \<open>
  On \<open>nestedRoutes\<close>: the object of mount point 2, two plain nodes below mount point 1, is
  the one child of the object of 1, and the siblings 1, 3, 4, 5 keep their order.
\<close>

theorem routeObject_mirrors_nesting_witness:
  "mountPathsOk None nestedRoutes \<and>
   routeObjectCollector nestedRoutes =
     Inr [RouteTree True ''/a'' 1 [RouteTree False ''/b'' 2 []],
          RouteTree False ''/c'' 3 [],
          RouteTree False ''/d'' 4 [],
          RouteTree False ''/e'' 5 []]"
  using routeObject_mirrors_nesting [of nestedRoutes]
  by (simp add: nestedRoutes_def aliased_def getMountPoint_def truthy_def)

end
